theory Spec2Isabelle
  imports Main "HOL-Library.Multiset" "HOL-Library.Char_ord"
begin

section \<open>The trie of debreviate.js\<close>

text \<open>
  Strings are lists of characters, one \<^typ>\<open>char\<close> per code unit of the JavaScript
  string. The case conversions below are the ASCII ones; the embedding covers field
  text, abbreviations and expansions made of ASCII code units. Trie edges, string
  reversal and the boundary test do not depend on that restriction.

  A \<open>TrieNode\<close> object has three fields: \<open>edges\<close> (an object used as a dictionary
  from one-character strings to child nodes), \<open>isLeaf\<close> and \<open>data\<close> (\<open>null\<close>
  is \<open>None\<close>). A child node is created inside \<open>Trie.prototype.add\<close> and stored
  in exactly one place, the \<open>edges\<close> of its parent, so the nodes below a root form a
  tree without sharing and a node is modelled as a value that contains its children.
  The root nodes themselves are objects in a store, because \<open>Trie.prototype.root\<close>
  and the own \<open>root\<close> property of an instance are references that several \<open>Trie\<close>
  instances can share.
\<close>

datatype TrieNode =
  TrieNode (edges: "char \<Rightarrow> TrieNode option") (isLeaf: bool) (data: "string option")

text \<open>\<open>new TrieNode()\<close>: no edges, \<open>isLeaf = false\<close>, \<open>data = null\<close>.\<close>

definition new_TrieNode :: TrieNode where
  "new_TrieNode = TrieNode (\<lambda>_. None) False None"

text \<open>
  The loop of \<open>Trie.prototype.add\<close>, started at \<open>currentNode\<close> with the characters
  \<open>value[i..]\<close> still to come. One iteration creates the edge when it is missing, steps
  to the child, and in the last iteration (\<open>i == value.length - 1\<close>, that is, no
  character remains) stores \<open>data\<close> and sets \<open>isLeaf\<close> on the child. With no character
  at all the body never runs and the node is left as it is.
\<close>

fun add_loop :: "string \<Rightarrow> string \<Rightarrow> TrieNode \<Rightarrow> TrieNode" where
  "add_loop [] d currentNode = currentNode"
| "add_loop (edge # rest) d currentNode =
     (let child = (case edges currentNode edge of None \<Rightarrow> new_TrieNode | Some n \<Rightarrow> n);
          child' = (if rest = [] then TrieNode (edges child) True (Some d) else child)
      in TrieNode ((edges currentNode)(edge \<mapsto> add_loop rest d child'))
           (isLeaf currentNode) (data currentNode))"

subsection \<open>Trie instances and their root\<close>

type_synonym ref = nat

text \<open>
  A \<open>Trie\<close> instance has at most one own property, \<open>root\<close>, which only \<open>clear\<close>
  creates. The constructor writes \<open>Trie.prototype.root\<close> instead, a property of the
  prototype object that every instance without an own \<open>root\<close> reads.
\<close>

record Trie =
  own_root :: "ref option"

record element =
  tagName :: string
  el_value :: string
  selectionStart :: nat
  selectionEnd :: nat

text \<open>
  The state of the page as far as the script reads and writes it: the store of root
  \<open>TrieNode\<close> objects with its allocation counter, \<open>Trie.prototype.root\<close>, the global
  variable \<open>trie\<close>, the lines written with \<open>console.error\<close>, and
  \<open>document.activeElement\<close> (\<open>None\<close> when nothing has the focus). Every state has
  seen the constructor run at least once (the script runs \<open>var trie = new Trie()\<close> when
  it loads), so \<open>Trie.prototype.root\<close> is always a reference.
\<close>

record page =
  heap :: "ref \<Rightarrow> TrieNode"
  free_ref :: ref
  Trie_prototype_root :: ref
  trie :: Trie
  console :: "string list"
  activeElement :: "element option"

text \<open>Allocating the root object of \<open>new TrieNode()\<close>.\<close>

definition alloc_TrieNode :: "page \<Rightarrow> ref \<times> page" where
  "alloc_TrieNode s =
     (free_ref s, s\<lparr>heap := (heap s)(free_ref s := new_TrieNode), free_ref := Suc (free_ref s)\<rparr>)"

text \<open>\<open>new Trie()\<close>: \<open>Trie.prototype.root = new TrieNode()\<close>; the instance has no own property.\<close>

definition Trie_new :: "page \<Rightarrow> Trie \<times> page" where
  "Trie_new s =
     (let (r, s') = alloc_TrieNode s
      in (\<lparr>own_root = None\<rparr>, s'\<lparr>Trie_prototype_root := r\<rparr>))"

text \<open>Reading \<open>this.root\<close>: the own property if there is one, else the prototype's.\<close>

definition root :: "page \<Rightarrow> Trie \<Rightarrow> ref" where
  "root s this = (case own_root this of Some r \<Rightarrow> r | None \<Rightarrow> Trie_prototype_root s)"

text \<open>\<open>Trie.prototype.add\<close>: the loop runs on the node object \<open>this.root\<close> refers to.\<close>

definition Trie_add :: "Trie \<Rightarrow> string \<Rightarrow> string \<Rightarrow> page \<Rightarrow> page" where
  "Trie_add this val d s =
     s\<lparr>heap := (heap s)(root s this := add_loop val d (heap s (root s this)))\<rparr>"

text \<open>\<open>Trie.prototype.clear\<close>: \<open>this.root = new TrieNode()\<close> creates the own property.\<close>

definition Trie_clear :: "Trie \<Rightarrow> page \<Rightarrow> Trie \<times> page" where
  "Trie_clear this s =
     (let (r, s') = alloc_TrieNode s in (this\<lparr>own_root := Some r\<rparr>, s'))"

subsection \<open>The traverser\<close>

text \<open>
  \<open>cursor_\<close> refers to a node of the trie. No operation of the script changes a trie
  between the creation of a traverser and its last use, so the field holds the node
  itself.
\<close>

record TrieTraverser =
  cursor :: TrieNode

record traverse_result =
  couldTraverse :: bool
  result_isLeaf :: "bool option"
  result_data :: "string option"

definition TrieTraverser_new :: "page \<Rightarrow> Trie \<Rightarrow> TrieTraverser" where
  "TrieTraverser_new s t = \<lparr>cursor = heap s (root s t)\<rparr>"

text \<open>
  \<open>TrieTraverser.prototype.traverse\<close>. A failed call returns \<open>{couldTraverse: false}\<close>,
  whose other two fields are undefined; a successful one moves the cursor.
\<close>

definition traverse :: "TrieTraverser \<Rightarrow> char \<Rightarrow> TrieTraverser \<times> traverse_result" where
  "traverse this c =
     (case edges (cursor this) c of
        None \<Rightarrow> (this, \<lparr>couldTraverse = False, result_isLeaf = None, result_data = None\<rparr>)
      | Some n \<Rightarrow>
          (this\<lparr>cursor := n\<rparr>,
           \<lparr>couldTraverse = True, result_isLeaf = Some (isLeaf n), result_data = data n\<rparr>))"

text \<open>A sequence of \<open>traverse\<close> calls on one traverser, with the result of each call.\<close>

fun traverse_all :: "TrieTraverser \<Rightarrow> string \<Rightarrow> traverse_result list" where
  "traverse_all this [] = []"
| "traverse_all this (c # cs) =
     (let (this', r) = traverse this c in r # traverse_all this' cs)"

section \<open>Utility functions\<close>

definition reverseString :: "string \<Rightarrow> string" where
  "reverseString str = rev str"

definition toLowerCase :: "char \<Rightarrow> char" where
  "toLowerCase c =
     (if CHR ''A'' \<le> c \<and> c \<le> CHR ''Z'' then char_of (of_char c + (32::nat)) else c)"

definition toUpperCase :: "char \<Rightarrow> char" where
  "toUpperCase c =
     (if CHR ''a'' \<le> c \<and> c \<le> CHR ''z'' then char_of (of_char c - (32::nat)) else c)"

text \<open>\<open>!/[a-z0-9]/i.test(char)\<close> on a one-character string.\<close>

definition isBoundaryCharacter :: "char \<Rightarrow> bool" where
  "isBoundaryCharacter c =
     (\<not> ((CHR ''a'' \<le> c \<and> c \<le> CHR ''z'') \<or> (CHR ''A'' \<le> c \<and> c \<le> CHR ''Z'')
         \<or> (CHR ''0'' \<le> c \<and> c \<le> CHR ''9'')))"

definition isEditableElement :: "element \<Rightarrow> bool" where
  "isEditableElement e = (tagName e \<in> set [''INPUT'', ''TEXTAREA''])"

section \<open>The main program\<close>

text \<open>
  The one exception the modelled code can raise: reading a property of \<open>undefined\<close>
  or \<open>null\<close>.
\<close>

datatype error = TypeError

subsection \<open>Loading the abbreviations\<close>

text \<open>
  A plain JavaScript object with string values, as \<open>parseData\<close> builds it: the
  properties in creation order. Assigning to an existing property keeps its place.
  (A cell whose text is \<open>__proto__\<close> would create no property; the model has no
  such special key.)
\<close>

type_synonym object = "(string \<times> string) list"

fun object_set :: "object \<Rightarrow> string \<Rightarrow> string \<Rightarrow> object" where
  "object_set [] k v = [(k, v)]"
| "object_set ((k', v') # ps) k v =
     (if k' = k then (k, v) # ps else (k', v') # object_set ps k v)"

text \<open>
  The loop of \<open>parseData\<close> over the cells from index 2 on, two at a time. It only runs
  on an even number of cells, so the last equation is never reached with one cell left.
\<close>

fun parseData_loop :: "string list \<Rightarrow> object \<Rightarrow> object" where
  "parseData_loop (k # v # cells) result = parseData_loop cells (object_set result k v)"
| "parseData_loop cells result = result"

text \<open>
  \<open>parseData\<close>. The argument is \<open>data.feed.entry\<close>, each cell given by its
  \<open>content['$t']\<close>.
\<close>

definition parseData :: "string list \<Rightarrow> page \<Rightarrow> object \<times> page" where
  "parseData entry s =
     (let numCells = length entry
      in if numCells < 4 \<or> numCells mod 2 \<noteq> 0
         then ([], s\<lparr>console := console s @
                 [''Invalid configuration, please check spreadsheet for proper format.'']\<rparr>)
         else (parseData_loop (drop 2 entry) [], s))"

text \<open>
  The \<open>for (var key in data)\<close> loop of \<open>handleDataResponse\<close>, over the properties in
  creation order (an engine lists keys that are array indices first; that changes the
  order of the \<open>add\<close> calls only).
\<close>

fun add_all :: "Trie \<Rightarrow> object \<Rightarrow> page \<Rightarrow> page" where
  "add_all t [] s = s"
| "add_all t ((key, d) # ps) s =
     add_all t ps (Trie_add t (map toLowerCase (reverseString key)) d s)"

text \<open>\<open>handleDataResponse\<close>, without the splash it shows at the end.\<close>

definition handleDataResponse :: "string list \<Rightarrow> page \<Rightarrow> page" where
  "handleDataResponse entry s =
     (let (d, s1) = parseData entry s;
          (t, s2) = Trie_clear (trie s1) s1;
          s3 = s2\<lparr>trie := t\<rparr>
      in add_all (trie s3) d s3)"

subsection \<open>Replacing an abbreviation\<close>

text \<open>
  The \<open>while (true)\<close> loop of \<open>processInput\<close>, entered with the current values of
  \<open>traverser\<close>, \<open>element\<close> and \<open>offset\<close>. Reading \<open>element.value\<close> beyond its
  end gives \<open>undefined\<close>, and \<open>char.toLowerCase()\<close> then throws; so does
  \<open>replacement.length\<close> when the data of a leaf is \<open>null\<close> (a leaf made by
  \<open>add\<close> always has data). An exception ends the run, and the model returns it
  without a state. The branch of a leaf has no \<open>break\<close>: with or without a
  replacement the loop goes on to the next iteration.
\<close>

function processInput_loop ::
  "TrieTraverser \<Rightarrow> element \<Rightarrow> int \<Rightarrow> int \<Rightarrow> error + element" where
  "processInput_loop traverser element cursorPosition offset =
     (let offset = offset - 1;
          nextCharPosition = cursorPosition + offset
      in if nextCharPosition < 0 then Inr element
         else if int (length (el_value element)) \<le> nextCharPosition then Inl TypeError
         else
           let char = el_value element ! nat nextCharPosition;
               (traverser, result) = traverse traverser (toLowerCase char)
           in if \<not> couldTraverse result then Inr element
              else if result_isLeaf result = Some True then
                (if nextCharPosition = 0 \<or>
                    isBoundaryCharacter (el_value element ! nat (nextCharPosition - 1))
                 then
                   (case result_data result of
                      None \<Rightarrow> Inl TypeError
                    | Some replacement \<Rightarrow>
                        let before = take (nat nextCharPosition) (el_value element);
                            replacement =
                              (if char \<noteq> toLowerCase char \<and> length replacement > 0
                               then toUpperCase (replacement ! 0) # drop 1 replacement
                               else replacement);
                            after = drop (nat cursorPosition) (el_value element);
                            element = element
                              \<lparr>el_value := before @ replacement @ after,
                               selectionStart := length before + length replacement,
                               selectionEnd := length before + length replacement\<rparr>
                        in processInput_loop traverser element cursorPosition offset)
                 else processInput_loop traverser element cursorPosition offset)
              else processInput_loop traverser element cursorPosition offset)"
  by pat_completeness auto
termination
  by (relation "measure (\<lambda>(traverser, element, cursorPosition, offset).
        nat (cursorPosition + offset))") auto

declare processInput_loop.simps [simp del]

definition processInput :: "page \<Rightarrow> error + page" where
  "processInput s =
     (case activeElement s of
        None \<Rightarrow> Inr s
      | Some element \<Rightarrow>
          if \<not> isEditableElement element then Inr s
          else
            (case processInput_loop (TrieTraverser_new s (trie s)) element
                    (int (selectionStart element)) 0 of
               Inl e \<Rightarrow> Inl e
             | Inr element' \<Rightarrow> Inr (s\<lparr>activeElement := Some element'\<rparr>)))"

text \<open>The page right after the script has run \<open>var trie = new Trie()\<close>.\<close>

definition loaded_page :: page where
  "loaded_page =
     \<lparr>heap = (\<lambda>_. new_TrieNode), free_ref = 1, Trie_prototype_root = 0,
      trie = \<lparr>own_root = None\<rparr>, console = [], activeElement = None\<rparr>"

section \<open>Definitions used to state and prove the properties\<close>

text \<open>
  \<open>leads_to n k v\<close>: following the characters of the non-empty string \<open>k\<close> from node
  \<open>n\<close> always finds an edge and ends on a leaf that carries \<open>v\<close>.
\<close>

fun leads_to :: "TrieNode \<Rightarrow> string \<Rightarrow> string \<Rightarrow> bool" where
  "leads_to n [] v = False"
| "leads_to n (c # cs) v =
     (case edges n c of
        None \<Rightarrow> False
      | Some m \<Rightarrow> if cs = [] then isLeaf m \<and> data m = Some v else leads_to m cs v)"

text \<open>The result of a \<open>traverse\<close> call that found no edge.\<close>

definition no_edge :: traverse_result where
  "no_edge = \<lparr>couldTraverse = False, result_isLeaf = None, result_data = None\<rparr>"

text \<open>The result of a \<open>traverse\<close> call that reached a leaf carrying \<open>v\<close>.\<close>

definition leaf_with :: "string \<Rightarrow> traverse_result" where
  "leaf_with v = \<lparr>couldTraverse = True, result_isLeaf = Some True, result_data = Some v\<rparr>"

text \<open>
  The page \<open>s\<close> with the focus on an \<open>INPUT\<close> element that holds \<open>txt\<close>, the caret
  (a collapsed selection) at offset \<open>pos\<close>.
\<close>

definition with_input :: "string \<Rightarrow> nat \<Rightarrow> page \<Rightarrow> page" where
  "with_input txt pos s =
     s\<lparr>activeElement := Some \<lparr>tagName = ''INPUT'', el_value = txt,
                               selectionStart = pos, selectionEnd = pos\<rparr>\<rparr>"

text \<open>
  The capitalisation rule in the words of the spec: a character is uppercase when it is
  one of \<open>A\<close> to \<open>Z\<close>, and capitalising a string changes its first character only.
\<close>

definition is_uppercase :: "char \<Rightarrow> bool" where
  "is_uppercase c = (CHR ''A'' \<le> c \<and> c \<le> CHR ''Z'')"

fun capitalize_first :: "string \<Rightarrow> string" where
  "capitalize_first [] = []"
| "capitalize_first (c # cs) = toUpperCase c # cs"

text \<open>Strings of ASCII code units, on which the case conversions above are JavaScript's.\<close>

definition ascii :: "string \<Rightarrow> bool" where
  "ascii str = list_all (\<lambda>c. of_char c < (128::nat)) str"

text \<open>
  Pages on which \<open>handleDataResponse\<close> has loaded a spreadsheet: two title cells, then
  the abbreviations with their expansions.
\<close>

definition brb_page :: page where
  "brb_page = handleDataResponse
     [''Abbreviation'', ''Debreviation'', ''brb'', ''be right back''] loaded_page"

definition omw_page :: page where
  "omw_page = handleDataResponse
     [''Abbreviation'', ''Debreviation'', ''omw'', ''on my way''] loaded_page"

definition u_page :: page where
  "u_page = handleDataResponse
     [''Abbreviation'', ''Debreviation'', ''u'', ''you'', ''c u'', ''see you''] loaded_page"

definition r_page :: page where
  "r_page = handleDataResponse
     [''Abbreviation'', ''Debreviation'', ''r'', ''are'', ''ur'', ''your''] loaded_page"

section \<open>Properties of the trie\<close>

lemma length_traverse_all [simp]: "length (traverse_all this cs) = length cs"
  by (induction cs arbitrary: this) (simp_all add: split_beta)

lemma traverse_all_eq_Nil [simp]: "traverse_all this cs = [] \<longleftrightarrow> cs = []"
  using length_traverse_all [of this cs] by (metis length_0_conv)

lemma traverse_all_Cons:
  "traverse_all \<lparr>cursor = n\<rparr> (c # cs) =
     (case edges n c of
        None \<Rightarrow> no_edge # traverse_all \<lparr>cursor = n\<rparr> cs
      | Some m \<Rightarrow> \<lparr>couldTraverse = True, result_isLeaf = Some (isLeaf m), result_data = data m\<rparr>
                  # traverse_all \<lparr>cursor = m\<rparr> cs)"
  by (simp add: traverse_def no_edge_def split: option.split)

text \<open>\<open>add\<close> never touches \<open>isLeaf\<close> and \<open>data\<close> of the node it starts from.\<close>

lemma add_loop_isLeaf [simp]: "isLeaf (add_loop k v n) = isLeaf n"
  by (cases k) (simp_all add: Let_def)

lemma add_loop_data [simp]: "data (add_loop k v n) = data n"
  by (cases k) (simp_all add: Let_def)

lemma leads_to_edges: "edges n = edges n' \<Longrightarrow> leads_to n k v = leads_to n' k v"
  by (cases k) simp_all

lemma leads_to_add_loop: "k \<noteq> [] \<Longrightarrow> leads_to (add_loop k v n) k v"
proof (induction k arbitrary: n)
  case Nil
  then show ?case by simp
next
  case (Cons c cs)
  show ?case
  proof (cases "cs = []")
    case True
    then show ?thesis by (simp add: Let_def)
  next
    case False
    with Cons.IH show ?thesis by (simp add: Let_def)
  qed
qed

text \<open>Adding another key keeps a key that is already there.\<close>

lemma leads_to_add_loop_other:
  "k' \<noteq> k \<Longrightarrow> leads_to n k v \<Longrightarrow> leads_to (add_loop k' v' n) k v"
proof (induction k' arbitrary: k n)
  case Nil
  then show ?case by simp
next
  case (Cons c' cs')
  from Cons.prems(2) obtain c cs where k: "k = c # cs" by (cases k) auto
  show ?case
  proof (cases "c = c'")
    case False
    with Cons.prems(2) k show ?thesis by (simp add: Let_def)
  next
    case True
    with Cons.prems(1) k have ne: "cs' \<noteq> cs" by simp
    from Cons.prems(2) k True obtain m where m: "edges n c' = Some m"
      and rest: "if cs = [] then isLeaf m \<and> data m = Some v else leads_to m cs v"
      by (auto split: option.splits)
    show ?thesis
    proof (cases "cs = []")
      case True
      with ne rest m k \<open>c = c'\<close> show ?thesis by (simp add: Let_def)
    next
      case False
      note csne = this
      show ?thesis
      proof (cases "cs' = []")
        case True
        have "leads_to (TrieNode (edges m) True (Some v')) cs v = leads_to m cs v"
          by (rule leads_to_edges) simp
        with True rest csne m k \<open>c = c'\<close> show ?thesis by (simp add: Let_def)
      next
        case False
        from rest csne have "leads_to m cs v" by simp
        from Cons.IH [OF ne this] False csne m k \<open>c = c'\<close> show ?thesis
          by (simp add: Let_def)
      qed
    qed
  qed
qed

lemma leads_to_fold_add_loop:
  "leads_to n k v \<Longrightarrow> k \<notin> fst ` set ps \<Longrightarrow>
     leads_to (fold (\<lambda>(k', v'). add_loop k' v') ps n) k v"
proof (induction ps arbitrary: n)
  case Nil
  then show ?case by simp
next
  case (Cons p ps)
  obtain k' v' where p: "p = (k', v')" by (cases p)
  with Cons.prems(2) have "k' \<noteq> k" and rest: "k \<notin> fst ` set ps" by auto
  from leads_to_add_loop_other [OF this(1) Cons.prems(1)]
  have "leads_to (add_loop k' v' n) k v" .
  from Cons.IH [OF this rest] p show ?case by simp
qed

lemma leads_to_traverse_all:
  "leads_to n k v \<Longrightarrow>
     (\<forall>r \<in> set (traverse_all \<lparr>cursor = n\<rparr> k). couldTraverse r) \<and>
     last (traverse_all \<lparr>cursor = n\<rparr> k) = leaf_with v"
proof (induction k arbitrary: n)
  case Nil
  then show ?case by simp
next
  case (Cons c cs)
  from Cons.prems obtain m where m: "edges n c = Some m"
    and rest: "if cs = [] then isLeaf m \<and> data m = Some v else leads_to m cs v"
    by (auto split: option.splits)
  show ?case
  proof (cases "cs = []")
    case True
    with m rest show ?thesis
      by (simp add: traverse_all_Cons leaf_with_def del: traverse_all.simps(2))
  next
    case False
    with rest have "leads_to m cs v" by simp
    from Cons.IH [OF this] False m show ?thesis
      by (simp add: traverse_all_Cons del: traverse_all.simps(2))
  qed
qed

subsection \<open>The root of an instance under \<open>add\<close>\<close>

lemma root_Trie_add [simp]: "root (Trie_add t k v s) t' = root s t'"
  by (simp add: root_def Trie_add_def split: option.split)

lemma heap_Trie_add_root [simp]:
  "heap (Trie_add t k v s) (root s t) = add_loop k v (heap s (root s t))"
  by (simp add: Trie_add_def)

lemma root_fold_Trie_add [simp]:
  "root (fold (\<lambda>(k, v). Trie_add t k v) ps s) t' = root s t'"
  by (induction ps arbitrary: s) (simp_all add: split_beta)

lemma heap_fold_Trie_add_root:
  "heap (fold (\<lambda>(k, v). Trie_add t k v) ps s) (root s t) =
     fold (\<lambda>(k, v). add_loop k v) ps (heap s (root s t))"
proof (induction ps arbitrary: s)
  case Nil
  show ?case by simp
next
  case (Cons p ps)
  obtain k v where p: "p = (k, v)" by (cases p)
  from Cons.IH [of "Trie_add t k v s"] p show ?case by simp
qed

text \<open>A node without edges: every \<open>traverse\<close> call fails.\<close>

lemma traverse_all_new_TrieNode:
  "traverse_all \<lparr>cursor = new_TrieNode\<rparr> k = replicate (length k) no_edge"
  by (induction k) (simp_all add: traverse_all_Cons new_TrieNode_def del: traverse_all.simps(2))

lemma TrieTraverser_after_adds:
  "TrieTraverser_new (fold (\<lambda>(k, v). Trie_add t k v) ps s) t =
     \<lparr>cursor = fold (\<lambda>(k, v). add_loop k v) ps (heap s (root s t))\<rparr>"
  using heap_fold_Trie_add_root [of t ps s] by (simp add: TrieTraverser_new_def)

lemma root_Trie_new:
  "heap (snd (Trie_new s)) (root (snd (Trie_new s)) (fst (Trie_new s))) = new_TrieNode"
  by (simp add: Trie_new_def alloc_TrieNode_def root_def)

lemma root_Trie_clear:
  "heap (snd (Trie_clear t s)) (root (snd (Trie_clear t s)) (fst (Trie_clear t s))) =
     new_TrieNode"
  by (simp add: Trie_clear_def alloc_TrieNode_def root_def)

subsection \<open>\<open>add\<close> calls with different keys commute\<close>

lemma add_loop_fields:
  "add_loop k v n = TrieNode (edges (add_loop k v n)) (isLeaf n) (data n)"
  by (cases k) (simp_all add: Let_def)

lemma edges_add_loop_cong:
  "edges n = edges n' \<Longrightarrow> edges (add_loop k v n) = edges (add_loop k v n')"
  by (cases k) (simp_all add: Let_def)

lemma add_loop_marked:
  "add_loop k v (TrieNode (edges n) l d) = TrieNode (edges (add_loop k v n)) l d"
proof -
  have "edges (add_loop k v (TrieNode (edges n) l d)) = edges (add_loop k v n)"
    by (rule edges_add_loop_cong) simp
  with add_loop_fields [of k v "TrieNode (edges n) l d"] show ?thesis by simp
qed

lemma add_loop_commute:
  "k \<noteq> k' \<Longrightarrow> add_loop k v (add_loop k' v' n) = add_loop k' v' (add_loop k v n)"
proof (induction k arbitrary: k' n)
  case Nil
  show ?case by simp
next
  case (Cons c cs)
  show ?case
  proof (cases k')
    case Nil
    then show ?thesis by simp
  next
    case k': (Cons c' cs')
    show ?thesis
    proof (cases "c = c'")
      case False
      then show ?thesis
        by (simp add: k' Let_def fun_upd_twist)
    next
      case True
      with Cons.prems k' have ne: "cs \<noteq> cs'" by simp
      define m where "m = (case edges n c of None \<Rightarrow> new_TrieNode | Some x \<Rightarrow> x)"
      have inner:
        "add_loop cs v
           (if cs = []
            then TrieNode (edges (add_loop cs' v'
                   (if cs' = [] then TrieNode (edges m) True (Some v') else m))) True (Some v)
            else add_loop cs' v' (if cs' = [] then TrieNode (edges m) True (Some v') else m)) =
         add_loop cs' v'
           (if cs' = []
            then TrieNode (edges (add_loop cs v
                   (if cs = [] then TrieNode (edges m) True (Some v) else m))) True (Some v')
            else add_loop cs v (if cs = [] then TrieNode (edges m) True (Some v) else m))"
      proof (cases "cs = []")
        case True
        with ne have "cs' \<noteq> []" by simp
        with True show ?thesis by (simp add: add_loop_marked)
      next
        case False
        show ?thesis
        proof (cases "cs' = []")
          case True
          with False show ?thesis by (simp add: add_loop_marked)
        next
          case False
          with \<open>cs \<noteq> []\<close> Cons.IH [OF ne, of m] show ?thesis by simp
        qed
      qed
      have L: "add_loop (c # cs) v (add_loop (c # cs') v' n) =
          TrieNode ((edges n)(c \<mapsto>
            add_loop cs v
              (if cs = []
               then TrieNode (edges (add_loop cs' v'
                      (if cs' = [] then TrieNode (edges m) True (Some v') else m))) True (Some v)
               else add_loop cs' v'
                      (if cs' = [] then TrieNode (edges m) True (Some v') else m))))
            (isLeaf n) (data n)"
        by (simp add: Let_def m_def)
      have R: "add_loop (c # cs') v' (add_loop (c # cs) v n) =
          TrieNode ((edges n)(c \<mapsto>
            add_loop cs' v'
              (if cs' = []
               then TrieNode (edges (add_loop cs v
                      (if cs = [] then TrieNode (edges m) True (Some v) else m))) True (Some v')
               else add_loop cs v
                      (if cs = [] then TrieNode (edges m) True (Some v) else m))))
            (isLeaf n) (data n)"
        by (simp add: Let_def m_def)
      show ?thesis
        unfolding k' True [symmetric] L R inner ..
    qed
  qed
qed

lemma fold_add_loop_permute:
  assumes "distinct (map fst ps)" and "mset ps' = mset ps"
  shows "fold (\<lambda>(k, v). add_loop k v) ps' = fold (\<lambda>(k, v). add_loop k v) ps"
proof (rule fold_multiset_equiv [symmetric])
  show "mset ps = mset ps'" using assms(2) by simp
next
  fix x y assume x: "x \<in> set ps" and y: "y \<in> set ps"
  obtain k v where xeq: "x = (k, v)" by (cases x)
  obtain k' v' where yeq: "y = (k', v')" by (cases y)
  show "(case x of (k, v) \<Rightarrow> add_loop k v) \<circ> (case y of (k, v) \<Rightarrow> add_loop k v) =
        (case y of (k, v) \<Rightarrow> add_loop k v) \<circ> (case x of (k, v) \<Rightarrow> add_loop k v)"
  proof (cases "k = k'")
    case True
    with assms(1) x y xeq yeq have "x = y"
      by (metis distinct_map eq_key_imp_eq_value)
    then show ?thesis by simp
  next
    case False
    then show ?thesis
      by (auto simp add: xeq yeq fun_eq_iff add_loop_commute)
  qed
qed

section \<open>Properties of the replacement\<close>

lemma toLowerCase_differs: "(c \<noteq> toLowerCase c) = is_uppercase c"
proof (cases "is_uppercase c")
  case False
  then show ?thesis by (auto simp add: toLowerCase_def is_uppercase_def)
next
  case True
  then have r: "65 \<le> (of_char c :: nat)" "(of_char c :: nat) \<le> 90"
    by (simp_all add: is_uppercase_def less_eq_char_def)
  have "of_char (toLowerCase c) = (of_char c + 32 :: nat)"
    using True r by (simp add: toLowerCase_def is_uppercase_def)
  then have "toLowerCase c \<noteq> c" by (metis add_cancel_right_right zero_neq_numeral)
  with True show ?thesis by auto
qed

lemma capitalize_first_eq:
  "r \<noteq> [] \<Longrightarrow> toUpperCase (r ! 0) # drop (Suc 0) r = capitalize_first r"
  by (cases r) simp_all

lemma length_capitalize_first [simp]: "length (capitalize_first r) = length r"
  by (cases r) simp_all

text \<open>\<open>processInput\<close> on a focused \<open>INPUT\<close> element is the loop, started at offset 0.\<close>

lemma processInput_with_input:
  "processInput (with_input txt pos s) =
     (case processInput_loop (TrieTraverser_new s (trie s))
             \<lparr>tagName = ''INPUT'', el_value = txt, selectionStart = pos, selectionEnd = pos\<rparr>
             (int pos) 0 of
        Inl e \<Rightarrow> Inl e
      | Inr element' \<Rightarrow> Inr (s\<lparr>activeElement := Some element'\<rparr>))"
  by (simp add: processInput_def with_input_def isEditableElement_def TrieTraverser_new_def
      root_def split: option.split sum.split)

lemma with_input_neq: "pos \<noteq> pos' \<Longrightarrow> with_input txt pos s \<noteq> with_input txt' pos' s"
proof
  assume "pos \<noteq> pos'" and "with_input txt pos s = with_input txt' pos' s"
  then have "activeElement (with_input txt pos s) = activeElement (with_input txt' pos' s)"
    by simp
  with \<open>pos \<noteq> pos'\<close> show False by (simp add: with_input_def)
qed

text \<open>On a trie without entries the scan ends at its first step.\<close>

lemma processInput_loop_new_TrieNode:
  assumes "cursorPosition \<le> int (length (el_value element))"
  shows "processInput_loop \<lparr>cursor = new_TrieNode\<rparr> element cursorPosition 0 = Inr element"
  using assms
  by (subst processInput_loop.simps) (simp add: Let_def traverse_def new_TrieNode_def)

text \<open>The definitions that a run of the script on a concrete page unfolds.\<close>

lemmas page_defs =
  processInput_def with_input_def handleDataResponse_def parseData_def loaded_page_def
  Trie_clear_def alloc_TrieNode_def Trie_add_def root_def reverseString_def toLowerCase_def
  toUpperCase_def TrieTraverser_new_def isEditableElement_def
  traverse_def new_TrieNode_def isBoundaryCharacter_def Let_def char_of_def bit_Suc_0_iff
  brb_page_def omw_page_def u_page_def r_page_def

lemma brb_run:
  "processInput (with_input ''hey brb'' 7 brb_page) =
     Inr (with_input ''hey be right back'' 17 brb_page)"
  by (simp add: page_defs processInput_loop.simps)

lemma parseData_invalid:
  "length entry < 4 \<or> length entry mod 2 \<noteq> 0 \<Longrightarrow>
   parseData entry s = ([], s\<lparr>console := console s @
       [''Invalid configuration, please check spreadsheet for proper format.'']\<rparr>)"
  by (simp add: parseData_def)

section \<open>The claims\<close>

text \<open>
  C1 says that the scan stops once a replacement is applied, so that one attempt applies
  exactly one replacement. The branch of a leaf has no \<open>break\<close>, and the loop goes on
  with the changed text and the old \<open>cursorPosition\<close>. With the abbreviations \<open>u\<close>
  (\<open>you\<close>) and \<open>c u\<close> (\<open>see you\<close>) loaded and the text \<open>c u\<close> with the caret
  at offset 3, the first step reaches the leaf of \<open>u\<close> after a space, and the text is
  changed to \<open>c you\<close>; two characters further left it is replaced a second time. The
  result is \<open>see youou\<close> with the caret at offset 7.
\<close>

theorem second_replacement_after_match:
  "snd (traverse (TrieTraverser_new u_page (trie u_page)) (toLowerCase CHR ''u'')) =
     leaf_with ''you'' \<and>
   isBoundaryCharacter CHR '' '' \<and>
   processInput (with_input ''c u'' 3 u_page) = Inr (with_input ''see youou'' 7 u_page)"
  by (simp add: page_defs processInput_loop.simps leaf_with_def)

text \<open>
  C2, as the spec states it: when the scan reaches a leaf whose boundary check fails, it
  stops with no replacement and never finds a longer match. With the abbreviations \<open>r\<close>
  (\<open>are\<close>) and \<open>ur\<close> (\<open>your\<close>) loaded and the text \<open>ur\<close>, the first step reaches
  the leaf of \<open>r\<close>, the character before it is \<open>u\<close>, which is no boundary character,
  and the scan goes on and replaces \<open>ur\<close> by \<open>your\<close>.
\<close>

theorem longer_match_after_failed_boundary_check:
  "snd (traverse (TrieTraverser_new r_page (trie r_page)) (toLowerCase CHR ''r'')) =
     leaf_with ''are'' \<and>
   \<not> isBoundaryCharacter CHR ''u'' \<and>
   processInput (with_input ''ur'' 2 r_page) = Inr (with_input ''your'' 4 r_page)"
  by (simp add: page_defs processInput_loop.simps leaf_with_def)

text \<open>
  C2, amended: when the scan reaches a leaf whose boundary check fails (the character
  before it is alphanumeric), it applies no replacement at that leaf, leaves the element
  as it is, and goes on with the next character to the left from that node of the trie.
\<close>

theorem failed_boundary_check_continues:
  assumes "nextCharPosition = cursorPosition + offset - 1"
    and "0 < nextCharPosition"
    and "nextCharPosition < int (length (el_value element))"
    and "traverse traverser (toLowerCase (el_value element ! nat nextCharPosition)) =
           (traverser', result)"
    and "couldTraverse result"
    and "result_isLeaf result = Some True"
    and "\<not> isBoundaryCharacter (el_value element ! nat (nextCharPosition - 1))"
  shows "processInput_loop traverser element cursorPosition offset =
         processInput_loop traverser' element cursorPosition (offset - 1)"
proof -
  have idx: "cursorPosition + (offset - 1) = nextCharPosition"
    using assms(1) by simp
  show ?thesis
    using assms(2-7)
    by (subst processInput_loop.simps) (simp add: Let_def idx)
qed

theorem failed_boundary_check_continues_witness:
  "snd (traverse (TrieTraverser_new r_page (trie r_page)) (toLowerCase CHR ''r'')) =
     leaf_with ''are'' \<and>
   \<not> isBoundaryCharacter CHR ''o'' \<and>
   processInput (with_input ''or'' 2 r_page) = Inr (with_input ''or'' 2 r_page)"
proof -
  let ?el = "\<lparr>tagName = ''INPUT'', el_value = ''or'', selectionStart = 2, selectionEnd = 2\<rparr>"
  let ?T0 = "TrieTraverser_new r_page (trie r_page)"
  let ?T1 = "fst (traverse ?T0 (toLowerCase (el_value ?el ! nat 1)))"
  let ?R1 = "snd (traverse ?T0 (toLowerCase (el_value ?el ! nat 1)))"
  have h1: "(1::int) = 2 + 0 - 1" by simp
  have h2: "(0::int) < 1" by simp
  have h3: "1 < int (length (el_value ?el))" by simp
  have h4: "traverse ?T0 (toLowerCase (el_value ?el ! nat 1)) = (?T1, ?R1)"
    by simp
  have R1: "?R1 = leaf_with ''are''"
    by (simp add: page_defs leaf_with_def)
  have h5: "couldTraverse ?R1" by (simp only: R1) (simp add: leaf_with_def)
  have h6: "result_isLeaf ?R1 = Some True" by (simp only: R1) (simp add: leaf_with_def)
  have h7: "\<not> isBoundaryCharacter (el_value ?el ! nat (1 - 1))"
    by (simp add: isBoundaryCharacter_def)
  have step: "processInput_loop ?T0 ?el 2 0 = processInput_loop ?T1 ?el 2 (0 - 1)"
    by (rule failed_boundary_check_continues [OF h1 h2 h3 h4 h5 h6 h7])
  have rest: "processInput_loop ?T1 ?el 2 (0 - 1) = Inr ?el"
    by (simp add: page_defs processInput_loop.simps)
  have "processInput (with_input ''or'' 2 r_page) = Inr (with_input ''or'' 2 r_page)"
    unfolding processInput_with_input using step rest by (simp add: with_input_def)
  moreover have "snd (traverse ?T0 (toLowerCase CHR ''r'')) = leaf_with ''are''"
    using R1 by simp
  moreover have "\<not> isBoundaryCharacter CHR ''o''"
    by (simp add: isBoundaryCharacter_def)
  ultimately show ?thesis by simp
qed

text \<open>
  C3, as the spec states it: with \<open>brb\<close> loaded, the text \<open>hey brb\<close> with the caret at
  offset 7 becomes \<open>hey be right back\<close> with the caret at offset 18. The script does not
  put the caret there.
\<close>

theorem brb_caret_is_not_18:
  "processInput (with_input ''hey brb'' 7 brb_page) \<noteq>
     Inr (with_input ''hey be right back'' 18 brb_page)"
proof -
  have "with_input ''hey be right back'' 17 brb_page \<noteq>
        with_input ''hey be right back'' 18 brb_page"
    by (rule with_input_neq) simp
  with brb_run show ?thesis by simp
qed

text \<open>
  C3, amended: the text becomes \<open>hey be right back\<close> and the selection is collapsed at
  offset 17, the length of \<open>before\<close> (\<open>hey \<close>, 4) plus the length of the replacement
  (13).
\<close>

theorem brb_expansion:
  "processInput (with_input ''hey brb'' 7 brb_page) =
     Inr (with_input ''hey be right back'' 17 brb_page) \<and>
   17 = length ''hey '' + length ''be right back''"
  using brb_run by simp

text \<open>
  C4. A non-empty string \<open>k\<close> is added to a trie with value \<open>v\<close>, and then any number
  of other keys, none of them \<open>k\<close>. A fresh traverser stepped through the characters of
  \<open>k\<close> in order can traverse at every step, and the last step reports a leaf with
  data \<open>v\<close>. This holds for every instance \<open>t\<close> and every earlier content of its trie.
\<close>

theorem inserted_key_is_found:
  assumes "k \<noteq> []" and "k \<notin> fst ` set later"
  shows "(\<forall>r \<in> set (traverse_all
              (TrieTraverser_new
                 (fold (\<lambda>(k', v'). Trie_add t k' v') later (Trie_add t k v s)) t) k).
            couldTraverse r) \<and>
         last (traverse_all
              (TrieTraverser_new
                 (fold (\<lambda>(k', v'). Trie_add t k' v') later (Trie_add t k v s)) t) k) =
           leaf_with v"
proof -
  let ?s = "fold (\<lambda>(k', v'). Trie_add t k' v') later (Trie_add t k v s)"
  have "heap ?s (root (Trie_add t k v s) t) =
          fold (\<lambda>(k', v'). add_loop k' v') later
            (heap (Trie_add t k v s) (root (Trie_add t k v s) t))"
    by (rule heap_fold_Trie_add_root)
  then have "heap ?s (root ?s t) =
          fold (\<lambda>(k', v'). add_loop k' v') later (add_loop k v (heap s (root s t)))"
    by simp
  moreover have "leads_to
      (fold (\<lambda>(k', v'). add_loop k' v') later (add_loop k v (heap s (root s t)))) k v"
    using assms by (intro leads_to_fold_add_loop leads_to_add_loop)
  ultimately have "leads_to (heap ?s (root ?s t)) k v"
    by simp
  from leads_to_traverse_all [OF this] show ?thesis
    by (simp add: TrieTraverser_new_def)
qed

theorem inserted_key_is_found_witness:
  "''brb'' \<noteq> [] \<and> ''brb'' \<notin> fst ` set [(''wmo'', ''on my way'')] \<and>
   list_all couldTraverse (traverse_all
        (TrieTraverser_new
           (fold (\<lambda>(k', v'). Trie_add (trie loaded_page) k' v') [(''wmo'', ''on my way'')]
              (Trie_add (trie loaded_page) ''brb'' ''be right back'' loaded_page))
           (trie loaded_page)) ''brb'') \<and>
   last (traverse_all
        (TrieTraverser_new
           (fold (\<lambda>(k', v'). Trie_add (trie loaded_page) k' v') [(''wmo'', ''on my way'')]
              (Trie_add (trie loaded_page) ''brb'' ''be right back'' loaded_page))
           (trie loaded_page)) ''brb'') =
     leaf_with ''be right back''"
proof -
  have h1: "''brb'' \<noteq> []"
    by simp
  have h2: "''brb'' \<notin> fst ` set [(''wmo'', ''on my way'')]"
    by simp
  show ?thesis
    unfolding list_all_iff
    by (rule conjI [OF h1 conjI [OF h2 inserted_key_is_found [OF h1 h2]]])
qed

text \<open>
  C5. When the scan reaches a leaf whose boundary check succeeds, the text becomes
  \<open>before\<close>, then the expansion, then \<open>after\<close>, where the expansion has its first
  character capitalised and the rest unchanged if the first matched character (the one
  at \<open>nextCharPosition\<close>) is uppercase, and is inserted verbatim otherwise. When the
  match starts at the start of the text, or the trie has no edge for the character before
  it, this is the text the scan ends with. The text and the expansion are ASCII.
\<close>

theorem replacement_is_capitalised:
  assumes "nextCharPosition = cursorPosition + offset - 1"
    and "0 \<le> nextCharPosition"
    and "nextCharPosition < int (length (el_value element))"
    and "traverse traverser (toLowerCase (el_value element ! nat nextCharPosition)) =
           (traverser', result)"
    and "couldTraverse result"
    and "result_isLeaf result = Some True"
    and "result_data result = Some expansion"
    and "nextCharPosition = 0 \<or>
           isBoundaryCharacter (el_value element ! nat (nextCharPosition - 1))"
    and "ascii (el_value element)" and "ascii expansion"
  shows "(let element' = element
              \<lparr>el_value := take (nat nextCharPosition) (el_value element) @
                 (if is_uppercase (el_value element ! nat nextCharPosition)
                  then capitalize_first expansion else expansion) @
                 drop (nat cursorPosition) (el_value element),
               selectionStart := nat nextCharPosition + length expansion,
               selectionEnd := nat nextCharPosition + length expansion\<rparr>
          in processInput_loop traverser element cursorPosition offset =
               processInput_loop traverser' element' cursorPosition (offset - 1) \<and>
             (nextCharPosition = 0 \<or>
              \<not> couldTraverse (snd (traverse traverser'
                   (toLowerCase (el_value element ! nat (nextCharPosition - 1))))) \<longrightarrow>
              processInput_loop traverser element cursorPosition offset = Inr element'))"
proof -
  define element' where "element' = element
              \<lparr>el_value := take (nat nextCharPosition) (el_value element) @
                 (if is_uppercase (el_value element ! nat nextCharPosition)
                  then capitalize_first expansion else expansion) @
                 drop (nat cursorPosition) (el_value element),
               selectionStart := nat nextCharPosition + length expansion,
               selectionEnd := nat nextCharPosition + length expansion\<rparr>"
  have len: "min (length (el_value element)) (nat nextCharPosition) = nat nextCharPosition"
    using assms(2,3) by simp
  have idx0: "cursorPosition + (offset - 1) = nextCharPosition"
    using assms(1) by simp
  have step: "processInput_loop traverser element cursorPosition offset =
               processInput_loop traverser' element' cursorPosition (offset - 1)"
    using assms(2-8)
    by (subst processInput_loop.simps)
       (auto simp add: Let_def idx0 toLowerCase_differs capitalize_first_eq element'_def len)
  have stop: "processInput_loop traverser' element' cursorPosition (offset - 1) = Inr element'"
    if "nextCharPosition = 0 \<or>
        \<not> couldTraverse (snd (traverse traverser'
             (toLowerCase (el_value element ! nat (nextCharPosition - 1)))))"
  proof (cases "nextCharPosition = 0")
    case True
    with idx0 have "cursorPosition + (offset - 1 - 1) < 0" by simp
    then show ?thesis by (subst processInput_loop.simps) (simp add: Let_def)
  next
    case False
    with that assms(2) have pos: "0 < nextCharPosition"
      and fail: "\<not> couldTraverse (snd (traverse traverser'
             (toLowerCase (el_value element ! nat (nextCharPosition - 1)))))" by auto
    have same: "el_value element' ! nat (nextCharPosition - 1) =
                el_value element ! nat (nextCharPosition - 1)"
      using pos assms(3) by (simp add: element'_def nth_append)
    have idx: "cursorPosition + (offset - 1 - 1) = nextCharPosition - 1"
      using assms(1) by simp
    have inside: "nextCharPosition - 1 < int (length (el_value element'))"
      using pos assms(3) by (simp add: element'_def)
    have nonneg: "\<not> nextCharPosition - 1 < 0"
      using pos by simp
    obtain t2 r2 where tr: "traverse traverser'
        (toLowerCase (el_value element' ! nat (nextCharPosition - 1))) = (t2, r2)"
      by (cases "traverse traverser'
        (toLowerCase (el_value element' ! nat (nextCharPosition - 1)))")
    with fail same have nr: "\<not> couldTraverse r2" by simp
    show ?thesis
      using inside nonneg nr
      by (subst processInput_loop.simps, simp only: Let_def idx tr) simp
  qed
  from step stop show ?thesis
    unfolding Let_def element'_def [symmetric] by simp
qed

theorem replacement_is_capitalised_witness:
  "is_uppercase CHR ''O'' \<and> ascii ''Omw'' \<and> ascii ''on my way'' \<and>
   processInput (with_input ''Omw'' 3 omw_page) = Inr (with_input ''On my way'' 9 omw_page)"
proof -
  let ?el = "\<lparr>tagName = ''INPUT'', el_value = ''Omw'', selectionStart = 3, selectionEnd = 3\<rparr>"
  let ?T0 = "TrieTraverser_new omw_page (trie omw_page)"
  let ?T2 = "fst (traverse (fst (traverse ?T0 CHR ''w'')) CHR ''m'')"
  let ?T3 = "fst (traverse ?T2 (toLowerCase (el_value ?el ! nat 0)))"
  let ?R3 = "snd (traverse ?T2 (toLowerCase (el_value ?el ! nat 0)))"
  have prefix: "processInput_loop ?T0 ?el 3 0 = processInput_loop ?T2 ?el 3 (- 2)"
    apply (subst processInput_loop.simps)
    apply (simp add: page_defs)
    apply (subst processInput_loop.simps)
    apply (simp add: page_defs)
    done
  have h1: "(0::int) = 3 + (- 2) - 1" by simp
  have h2: "(0::int) \<le> 0" by simp
  have h3: "0 < int (length (el_value ?el))" by simp
  have h4: "traverse ?T2 (toLowerCase (el_value ?el ! nat 0)) = (?T3, ?R3)" by simp
  have R3: "?R3 = leaf_with ''on my way''"
    by (simp add: page_defs leaf_with_def)
  have h5: "couldTraverse ?R3" by (simp only: R3) (simp add: leaf_with_def)
  have h6: "result_isLeaf ?R3 = Some True" by (simp only: R3) (simp add: leaf_with_def)
  have h7: "result_data ?R3 = Some ''on my way''" by (simp only: R3) (simp add: leaf_with_def)
  have h8: "(0::int) = 0 \<or> isBoundaryCharacter (el_value ?el ! nat (0 - 1))" by simp
  have h9: "ascii (el_value ?el)" by (simp add: ascii_def)
  have h10: "ascii ''on my way''" by (simp add: ascii_def)
  note inst = replacement_is_capitalised [OF h1 h2 h3 h4 h5 h6 h7 h8 h9 h10,
      unfolded Let_def, THEN conjunct2, THEN mp, OF disjI1 [OF refl]]
  have final: "processInput_loop ?T2 ?el 3 (- 2) =
      Inr \<lparr>tagName = ''INPUT'', el_value = ''On my way'', selectionStart = 9, selectionEnd = 9\<rparr>"
    using inst by (simp add: is_uppercase_def toUpperCase_def char_of_def bit_Suc_0_iff)
  have "processInput (with_input ''Omw'' 3 omw_page) = Inr (with_input ''On my way'' 9 omw_page)"
    unfolding processInput_with_input using prefix final by (simp add: with_input_def)
  moreover have "is_uppercase CHR ''O''" by (simp add: is_uppercase_def)
  ultimately show ?thesis using h10 by (simp add: ascii_def)
qed

text \<open>
  C6. A payload with fewer than four cells or an odd number of cells parses to the empty
  mapping and logs an error. \<open>handleDataResponse\<close> still clears the trie: afterwards
  every step of every lookup with a fresh traverser fails, and \<open>processInput\<close> leaves
  every text as it is.
\<close>

theorem invalid_payload_clears_trie:
  assumes "length entry < 4 \<or> length entry mod 2 \<noteq> 0"
  shows "fst (parseData entry s) = [] \<and>
         console (handleDataResponse entry s) = console s @
           [''Invalid configuration, please check spreadsheet for proper format.''] \<and>
         traverse_all (TrieTraverser_new (handleDataResponse entry s)
             (trie (handleDataResponse entry s))) k = replicate (length k) no_edge \<and>
         (pos \<le> length txt \<longrightarrow>
            processInput (with_input txt pos (handleDataResponse entry s)) =
              Inr (with_input txt pos (handleDataResponse entry s)))"
proof -
  have cleared: "TrieTraverser_new (handleDataResponse entry s)
      (trie (handleDataResponse entry s)) = \<lparr>cursor = new_TrieNode\<rparr>"
    by (simp add: parseData_invalid [OF assms] handleDataResponse_def Trie_clear_def
        alloc_TrieNode_def TrieTraverser_new_def root_def)
  have "processInput (with_input txt pos (handleDataResponse entry s)) =
          Inr (with_input txt pos (handleDataResponse entry s))" if "pos \<le> length txt"
    unfolding processInput_with_input cleared
    using that by (simp add: processInput_loop_new_TrieNode with_input_def)
  moreover have "fst (parseData entry s) = []"
    by (simp add: parseData_invalid [OF assms])
  moreover have "console (handleDataResponse entry s) = console s @
           [''Invalid configuration, please check spreadsheet for proper format.'']"
    by (simp add: parseData_invalid [OF assms] handleDataResponse_def Trie_clear_def
        alloc_TrieNode_def)
  ultimately show ?thesis
    by (simp add: cleared traverse_all_new_TrieNode)
qed

theorem invalid_payload_clears_trie_witness:
  "(length [''Abbreviation'', ''Debreviation'', ''omw''] < 4 \<or>
    length [''Abbreviation'', ''Debreviation'', ''omw''] mod 2 \<noteq> 0) \<and>
   last (traverse_all (TrieTraverser_new omw_page (trie omw_page)) ''wmo'') =
     leaf_with ''on my way'' \<and>
   traverse_all
     (TrieTraverser_new (handleDataResponse [''Abbreviation'', ''Debreviation'', ''omw''] omw_page)
        (trie (handleDataResponse [''Abbreviation'', ''Debreviation'', ''omw''] omw_page)))
     ''wmo'' = [no_edge, no_edge, no_edge] \<and>
   processInput (with_input ''omw'' 3
       (handleDataResponse [''Abbreviation'', ''Debreviation'', ''omw''] omw_page)) =
     Inr (with_input ''omw'' 3
       (handleDataResponse [''Abbreviation'', ''Debreviation'', ''omw''] omw_page))"
proof -
  have h: "length [''Abbreviation'', ''Debreviation'', ''omw''] < 4 \<or>
           length [''Abbreviation'', ''Debreviation'', ''omw''] mod 2 \<noteq> 0"
    by simp
  have before: "last (traverse_all (TrieTraverser_new omw_page (trie omw_page)) ''wmo'') =
     leaf_with ''on my way''"
    by (simp add: page_defs leaf_with_def)
  note after = invalid_payload_clears_trie [OF h, of omw_page "''wmo''" 3 "''omw''"]
  from after have lookups: "traverse_all
     (TrieTraverser_new (handleDataResponse [''Abbreviation'', ''Debreviation'', ''omw''] omw_page)
        (trie (handleDataResponse [''Abbreviation'', ''Debreviation'', ''omw''] omw_page)))
     ''wmo'' = [no_edge, no_edge, no_edge]"
    by (simp add: numeral_3_eq_3)
  from after have run: "processInput (with_input ''omw'' 3
       (handleDataResponse [''Abbreviation'', ''Debreviation'', ''omw''] omw_page)) =
     Inr (with_input ''omw'' 3
       (handleDataResponse [''Abbreviation'', ''Debreviation'', ''omw''] omw_page))"
    by simp
  show ?thesis
    by (rule conjI [OF h conjI [OF before conjI [OF lookups run]]])
qed

text \<open>
  C7, as the spec states it: adding the empty string with value \<open>v\<close> marks the root
  terminal with \<open>v\<close>. On the trie of the freshly loaded page the root is not a leaf
  after \<open>trie.add('', 'v')\<close>.
\<close>

theorem empty_key_marks_root_counterexample:
  "\<not> (isLeaf (cursor (TrieTraverser_new
          (Trie_add (trie loaded_page) [] ''v'' loaded_page) (trie loaded_page))) \<and>
      data (cursor (TrieTraverser_new
          (Trie_add (trie loaded_page) [] ''v'' loaded_page) (trie loaded_page))) = Some ''v'')"
  by (simp add: TrieTraverser_new_def Trie_add_def loaded_page_def root_def new_TrieNode_def)

text \<open>
  C7, amended: adding the empty string changes nothing. The page is the same after the
  call, a fresh traverser starts on the same node as before, and on a newly constructed
  trie that node is still not a leaf and has no data.
\<close>

theorem empty_key_changes_nothing:
  "Trie_add t [] v s = s \<and>
   cursor (TrieTraverser_new (Trie_add t [] v s) t) = cursor (TrieTraverser_new s t) \<and>
   isLeaf (cursor (TrieTraverser_new
      (Trie_add (fst (Trie_new s)) [] v (snd (Trie_new s))) (fst (Trie_new s)))) = False \<and>
   data (cursor (TrieTraverser_new
      (Trie_add (fst (Trie_new s)) [] v (snd (Trie_new s))) (fst (Trie_new s)))) = None"
  by (simp add: Trie_add_def TrieTraverser_new_def Trie_new_def alloc_TrieNode_def root_def
      new_TrieNode_def)

text \<open>
  C8. A trie is built by \<open>new Trie()\<close> and \<open>add\<close> calls for the pairs \<open>ps\<close>; then
  \<open>clear()\<close> is called and the same pairs are added again, in the same order or, when
  no key occurs twice, in any order. Every sequence of \<open>traverse\<close> calls on a fresh
  traverser gives the same results on the rebuilt trie as it gave on the original.
\<close>

theorem clear_and_reinsert:
  assumes "ps' = ps \<or> (distinct (map fst ps) \<and> mset ps' = mset ps)"
  shows "(let (t, s1) = Trie_new s;
              s2 = fold (\<lambda>(k, v). Trie_add t k v) ps s1;
              (t', s3) = Trie_clear t s2;
              s4 = fold (\<lambda>(k, v). Trie_add t' k v) ps' s3
          in traverse_all (TrieTraverser_new s4 t') cs =
             traverse_all (TrieTraverser_new s2 t) cs)"
proof -
  from assms
  have same: "fold (\<lambda>(k, v). add_loop k v) ps' = fold (\<lambda>(k, v). add_loop k v) ps"
    by (auto intro: fold_add_loop_permute)
  show ?thesis
    by (simp add: split_beta Let_def TrieTraverser_after_adds root_Trie_new root_Trie_clear same)
qed

theorem clear_and_reinsert_witness:
  "([(''wmo'', ''on my way''), (''brb'', ''be right back'')] =
       [(''brb'', ''be right back''), (''wmo'', ''on my way'')] \<or>
    (distinct (map fst [(''brb'', ''be right back''), (''wmo'', ''on my way'')]) \<and>
     mset [(''wmo'', ''on my way''), (''brb'', ''be right back'')] =
       mset [(''brb'', ''be right back''), (''wmo'', ''on my way'')])) \<and>
   (let (t, s1) = Trie_new loaded_page;
        s2 = fold (\<lambda>(k, v). Trie_add t k v)
               [(''brb'', ''be right back''), (''wmo'', ''on my way'')] s1;
        (t', s3) = Trie_clear t s2;
        s4 = fold (\<lambda>(k, v). Trie_add t' k v)
               [(''wmo'', ''on my way''), (''brb'', ''be right back'')] s3
    in traverse_all (TrieTraverser_new s4 t') ''wmobrb'' =
       traverse_all (TrieTraverser_new s2 t) ''wmobrb'')"
proof -
  have h: "[(''wmo'', ''on my way''), (''brb'', ''be right back'')] =
       [(''brb'', ''be right back''), (''wmo'', ''on my way'')] \<or>
    (distinct (map fst [(''brb'', ''be right back''), (''wmo'', ''on my way'')]) \<and>
     mset [(''wmo'', ''on my way''), (''brb'', ''be right back'')] =
       mset [(''brb'', ''be right back''), (''wmo'', ''on my way'')])"
    by (simp add: add_mset_commute)
  show ?thesis
    by (rule conjI [OF h clear_and_reinsert [OF h]])
qed

text \<open>
  C9. A \<open>traverse\<close> call with a character for which the current node has no edge
  returns \<open>couldTraverse = false\<close> and leaves the traverser as it was; the calls that
  follow on the same traverser give what they would have given without the failed call.
\<close>

theorem failed_traverse_keeps_cursor:
  assumes "edges (cursor this) c = None"
  shows "traverse this c = (this, no_edge) \<and>
         traverse_all this (c # cs) = no_edge # traverse_all this cs"
  using assms by (simp add: traverse_def no_edge_def)

theorem failed_traverse_keeps_cursor_witness:
  "edges (cursor (fst (traverse (TrieTraverser_new omw_page (trie omw_page)) CHR ''w'')))
     CHR ''x'' = None \<and>
   traverse (fst (traverse (TrieTraverser_new omw_page (trie omw_page)) CHR ''w'')) CHR ''x'' =
     (fst (traverse (TrieTraverser_new omw_page (trie omw_page)) CHR ''w''), no_edge) \<and>
   traverse_all (fst (traverse (TrieTraverser_new omw_page (trie omw_page)) CHR ''w'')) ''xmo'' =
     no_edge #
     traverse_all (fst (traverse (TrieTraverser_new omw_page (trie omw_page)) CHR ''w'')) ''mo'' \<and>
   map couldTraverse
     (traverse_all (TrieTraverser_new omw_page (trie omw_page)) ''wxmo'') =
     [True, False, True, True] \<and>
   last (traverse_all (TrieTraverser_new omw_page (trie omw_page)) ''wxmo'') =
     leaf_with ''on my way''"
proof -
  let ?T0 = "TrieTraverser_new omw_page (trie omw_page)"
  let ?T1 = "fst (traverse ?T0 CHR ''w'')"
  have h: "edges (cursor ?T1) CHR ''x'' = None"
    by (simp add: page_defs)
  note kept = failed_traverse_keeps_cursor [OF h, of "''mo''"]
  have first: "traverse_all ?T0 ''wxmo'' =
      snd (traverse ?T0 CHR ''w'') # traverse_all ?T1 ''xmo''"
    by (simp add: split_beta)
  have w: "couldTraverse (snd (traverse ?T0 CHR ''w''))"
    by (simp add: page_defs)
  have later: "map couldTraverse (traverse_all ?T1 ''mo'') = [True, True] \<and>
               last (traverse_all ?T1 ''mo'') = leaf_with ''on my way''"
    by (simp add: page_defs leaf_with_def)
  have whole: "traverse_all ?T0 ''wxmo'' =
      snd (traverse ?T0 CHR ''w'') # no_edge # traverse_all ?T1 ''mo''"
    by (simp only: first kept [THEN conjunct2])
  have results: "map couldTraverse (traverse_all ?T0 ''wxmo'') = [True, False, True, True]"
    unfolding whole using w later [THEN conjunct1]
    by (simp add: no_edge_def del: traverse_all.simps)
  have final: "last (traverse_all ?T0 ''wxmo'') = leaf_with ''on my way''"
    unfolding whole using later [THEN conjunct2]
    by (simp del: traverse_all.simps)
  show ?thesis
    by (rule conjI [OF h conjI [OF kept [THEN conjunct1]
          conjI [OF kept [THEN conjunct2] conjI [OF results final]]]])
qed

text \<open>
  C10. The constructor stores the root in \<open>Trie.prototype\<close>, so two instances without
  an own \<open>root\<close> read the same root. After \<open>t1 = new Trie(); t1.add(k, v)\<close> a fresh
  traverser over \<open>t1\<close> finds \<open>k\<close>; after a further \<open>t2 = new Trie()\<close> both instances
  read the new, empty root and every step of the lookup of \<open>k\<close> over \<open>t1\<close> fails. When
  \<open>t1.clear()\<close> is called before the \<open>add\<close>, \<open>t1\<close> has a root of its own and still
  finds \<open>k\<close> after \<open>t2\<close> is constructed.
\<close>

theorem prototype_root_is_shared:
  assumes "k \<noteq> []"
  shows "(own_root a = None \<and> own_root b = None \<longrightarrow> root s a = root s b) \<and>
         (let (t1, s1) = Trie_new s;
              s2 = Trie_add t1 k v s1;
              (t2, s3) = Trie_new s2
          in root s3 t1 = root s3 t2 \<and>
             last (traverse_all (TrieTraverser_new s2 t1) k) = leaf_with v \<and>
             traverse_all (TrieTraverser_new s3 t1) k = replicate (length k) no_edge) \<and>
         (let (t1, s1) = Trie_new s;
              (t1, s1) = Trie_clear t1 s1;
              s2 = Trie_add t1 k v s1;
              (t2, s3) = Trie_new s2
          in root s3 t1 \<noteq> root s3 t2 \<and>
             last (traverse_all (TrieTraverser_new s3 t1) k) = leaf_with v)"
proof -
  have found: "last (traverse_all \<lparr>cursor = add_loop k v n\<rparr> k) = leaf_with v" for n
    using leads_to_traverse_all [OF leads_to_add_loop [OF assms]] by blast
  show ?thesis
    by (simp add: Trie_new_def Trie_clear_def alloc_TrieNode_def Trie_add_def root_def
        TrieTraverser_new_def found traverse_all_new_TrieNode)
qed

theorem prototype_root_is_shared_witness:
  "''brb'' \<noteq> [] \<and>
   own_root (trie loaded_page) = None \<and>
   own_root (fst (Trie_new loaded_page)) = None \<and>
   root loaded_page (trie loaded_page) = root loaded_page (fst (Trie_new loaded_page)) \<and>
   (let (t1, s1) = Trie_new loaded_page;
        s2 = Trie_add t1 ''brb'' ''be right back'' s1;
        (t2, s3) = Trie_new s2
    in root s3 t1 = root s3 t2 \<and>
       last (traverse_all (TrieTraverser_new s2 t1) ''brb'') = leaf_with ''be right back'' \<and>
       traverse_all (TrieTraverser_new s3 t1) ''brb'' = replicate (length ''brb'') no_edge) \<and>
   (let (t1, s1) = Trie_new loaded_page;
        (t1, s1) = Trie_clear t1 s1;
        s2 = Trie_add t1 ''brb'' ''be right back'' s1;
        (t2, s3) = Trie_new s2
    in root s3 t1 \<noteq> root s3 t2 \<and>
       last (traverse_all (TrieTraverser_new s3 t1) ''brb'') = leaf_with ''be right back'')"
proof -
  have h: "''brb'' \<noteq> []" by simp
  have o1: "own_root (trie loaded_page) = None"
    by (simp add: loaded_page_def)
  have o2: "own_root (fst (Trie_new loaded_page)) = None"
    by (simp add: Trie_new_def alloc_TrieNode_def)
  note inst = prototype_root_is_shared [OF h, of "trie loaded_page"
      "fst (Trie_new loaded_page)" loaded_page "''be right back''"]
  note shared = inst [THEN conjunct1, THEN mp, OF conjI [OF o1 o2]]
  show ?thesis
    by (rule conjI [OF h conjI [OF o1 conjI [OF o2 conjI [OF shared inst [THEN conjunct2]]]]])
qed

end
